theory Spec2Isabelle
  imports Main "HOL-Library.Word"
begin

section \<open>Data model\<close>

text \<open>
  A Python \<open>str\<close> is a sequence of Unicode code points. A code point is modelled by its
  number, so that the character classes of \<open>re\<close> and of \<open>str.strip\<close> can be written as
  they are. \<open>str\<close> turns a literal into such a sequence.
\<close>

type_synonym codepoint = nat
type_synonym pystr = "codepoint list"

definition str :: "string \<Rightarrow> pystr" where
  "str s = map of_char s"

text \<open>
  The values that \<open>json.loads\<close> and \<open>ast.literal_eval\<close> can produce. A float is kept as
  its 64 bits; a dict is the list of its items (keys distinct).
\<close>

datatype pyval =
    PNone
  | PBool bool
  | PInt int
  | PFloat "64 word"
  | PComplex "64 word" "64 word"
  | PStr pystr
  | PBytes "nat list"
  | PList "pyval list"
  | PTuple "pyval list"
  | PSet "pyval list"
  | PDict "(pyval \<times> pyval) list"
  | PEllipsis

text \<open>
  Exceptions, by class. An exception of a subclass is modelled by the nearest class named
  here (\<open>UnicodeDecodeError\<close> by \<open>ValueError\<close>, \<open>IndentationError\<close> by \<open>SyntaxError\<close>);
  \<open>JSONDecodeError\<close> is kept apart although it derives from \<open>ValueError\<close>, since
  \<open>parse_as\<close> names it. \<open>OtherError\<close> is an exception of a class that derives from none
  of the others.
\<close>

datatype exn =
    JSONDecodeError
  | ValueError
  | SyntaxError
  | KeyError
  | TypeError
  | RecursionError
  | MemoryError
  | KeyboardInterrupt
  | EOFError
  | OtherError string

text \<open>Python truth value testing, as used by \<open>not utterance\<close>.\<close>

definition float_is_zero :: "64 word \<Rightarrow> bool" where
  "float_is_zero w = (take_bit 63 w = 0)"

fun truthy :: "pyval \<Rightarrow> bool" where
  "truthy PNone = False"
| "truthy (PBool b) = b"
| "truthy (PInt i) = (i \<noteq> 0)"
| "truthy (PFloat w) = (\<not> float_is_zero w)"
| "truthy (PComplex re im) = (\<not> (float_is_zero re \<and> float_is_zero im))"
| "truthy (PStr s) = (s \<noteq> [])"
| "truthy (PBytes b) = (b \<noteq> [])"
| "truthy (PList xs) = (xs \<noteq> [])"
| "truthy (PTuple xs) = (xs \<noteq> [])"
| "truthy (PSet xs) = (xs \<noteq> [])"
| "truthy (PDict kvs) = (kvs \<noteq> [])"
| "truthy PEllipsis = True"

section \<open>String operations of the plain-text tier\<close>

text \<open>
  The class \<open>[^a-zA-Z0-9 ]\<close>, and the whitespace of \<open>\s\<close> (on a \<open>str\<close> pattern) and of
  \<open>str.strip()\<close>: both are \<open>Py_UNICODE_ISSPACE\<close>.
\<close>

definition alnum :: "codepoint \<Rightarrow> bool" where
  "alnum c = ((97 \<le> c \<and> c \<le> 122) \<or> (65 \<le> c \<and> c \<le> 90) \<or> (48 \<le> c \<and> c \<le> 57))"

definition not_alnum_space :: "codepoint \<Rightarrow> bool" where
  "not_alnum_space c = (\<not> (alnum c \<or> c = 32))"

definition is_space :: "codepoint \<Rightarrow> bool" where
  "is_space c =
     ((9 \<le> c \<and> c \<le> 13) \<or> (28 \<le> c \<and> c \<le> 32) \<or> c = 133 \<or> c = 160 \<or> c = 5760
      \<or> (8192 \<le> c \<and> c \<le> 8202) \<or> c = 8232 \<or> c = 8233 \<or> c = 8239 \<or> c = 8287
      \<or> c = 12288)"

text \<open>
  \<open>re.sub(X+, rep, s)\<close> for a character class \<open>X\<close>: every maximal run of characters
  of the class is replaced by \<open>rep\<close>.
\<close>

function re_sub_plus :: "(codepoint \<Rightarrow> bool) \<Rightarrow> pystr \<Rightarrow> pystr \<Rightarrow> pystr" where
  "re_sub_plus X rep [] = []"
| "re_sub_plus X rep (c # cs) =
     (if X c then rep @ re_sub_plus X rep (dropWhile X cs)
      else c # re_sub_plus X rep cs)"
  by pat_completeness auto
termination
  by (relation "measure (\<lambda>(X, rep, s). length s)")
     (auto simp: length_dropWhile_le less_Suc_eq_le)

text \<open>
  \<open>str.lower()\<close> on ASCII. The source applies it to the result of the two substitutions,
  which holds ASCII letters, digits and spaces only (lemma \<open>re_sub_not_alnum_space_chars\<close> below).
\<close>

definition lower_cp :: "codepoint \<Rightarrow> codepoint" where
  "lower_cp c = (if 65 \<le> c \<and> c \<le> 90 then c + 32 else c)"

definition lower :: "pystr \<Rightarrow> pystr" where
  "lower s = map lower_cp s"

definition strip :: "pystr \<Rightarrow> pystr" where
  "strip s = rev (dropWhile is_space (rev (dropWhile is_space s)))"

text \<open>\<open>s.split(sep)\<close> for a separator of one character.\<close>

fun split_on :: "codepoint \<Rightarrow> pystr \<Rightarrow> pystr list" where
  "split_on sep [] = [[]]"
| "split_on sep (c # cs) =
     (if c = sep then [] # split_on sep cs
      else (case split_on sep cs of [] \<Rightarrow> [[c]] | p # ps \<Rightarrow> (c # p) # ps))"

definition pipe :: codepoint where
  "pipe = 124"

section \<open>The plain-text tier\<close>

text \<open>Line 51: the normalization of the utterance text.\<close>

definition normalize_text :: "pystr \<Rightarrow> pystr" where
  "normalize_text t =
     strip (lower (re_sub_plus is_space [32] (re_sub_plus not_alnum_space [32] t)))"

text \<open>
  \<open>make_alts_from_text\<close>. Unpacking \<open>text.split("|")\<close> into two names raises
  \<open>ValueError\<close> unless the list has exactly two elements.
\<close>

definition make_alts_from_text :: "pystr \<Rightarrow> exn + (pystr list \<times> pystr option)" where
  "make_alts_from_text text =
     (if pipe \<in> set text then
        (case split_on pipe text of
           [t, context] \<Rightarrow> Inr ([normalize_text t], Some (strip context))
         | _ \<Rightarrow> Inl ValueError)
      else Inr ([normalize_text text], None))"

section \<open>The structured tiers\<close>

text \<open>
  The two decoders (\<open>json.loads\<close>, \<open>ast.literal_eval\<close>), the transcript normaliser
  \<open>normalize\<close> of the dialogy library and the prediction pipeline are not code of this
  program: the development is parametric in them. Each returns a value or raises.
  \<open>now_ms n\<close> is the wall clock read in the \<open>n\<close>-th pass of the loop.
\<close>

type_synonym decoder = "pystr \<Rightarrow> exn + pyval"

record env =
  json_loads :: decoder
  literal_eval :: decoder
  normalize :: "pyval \<Rightarrow> exn + pyval"
  PREDICT_API :: "pyval \<Rightarrow> pyval \<Rightarrow> int \<Rightarrow> exn + pyval"
  now_ms :: "nat \<Rightarrow> int"

text \<open>
  Modelled from the spec: the constant \<open>const.ALTERNATIVES\<close> of the module
  \<open>slu.constants\<close>, which is not among the sources; the key "alternatives".
\<close>

definition ALTERNATIVES :: pystr where
  "ALTERNATIVES = str ''alternatives''"

text \<open>
  Modelled from the spec: the constant \<open>const.CONTEXT\<close> of the same module; the key
  "context".
\<close>

definition CONTEXT :: pystr where
  "CONTEXT = str ''context''"

text \<open>
  \<open>content[key]\<close> on a dict. The keys looked up are strings, and a string is equal to
  strings only, so that equality of keys is equality of values.
\<close>

definition getitem :: "(pyval \<times> pyval) list \<Rightarrow> pyval \<Rightarrow> exn + pyval" where
  "getitem kvs k = (case map_of kvs k of None \<Rightarrow> Inl KeyError | Some v \<Rightarrow> Inr v)"

text \<open>The body of the \<open>try\<close> of \<open>parse_as\<close> (lines 67 to 73), left to right.\<close>

definition parse_as_try :: "env \<Rightarrow> pystr \<Rightarrow> decoder \<Rightarrow> exn + (pyval \<times> pyval)" where
  "parse_as_try E text func =
     (case func text of
        Inl e \<Rightarrow> Inl e
      | Inr content \<Rightarrow>
          (case content of
             PDict kvs \<Rightarrow>
               (case getitem kvs (PStr ALTERNATIVES) of
                  Inl e \<Rightarrow> Inl e
                | Inr alts \<Rightarrow>
                    (case normalize E alts of
                       Inl e \<Rightarrow> Inl e
                     | Inr utterance \<Rightarrow>
                         (case getitem kvs (PStr CONTEXT) of
                            Inl e \<Rightarrow> Inl e
                          | Inr context \<Rightarrow> Inr (utterance, context))))
           | PList xs \<Rightarrow>
               (case normalize E content of
                  Inl e \<Rightarrow> Inl e
                | Inr utterance \<Rightarrow> Inr (utterance, PDict []))
           | _ \<Rightarrow> Inr (PNone, PDict [])))"

text \<open>The three \<open>except\<close> clauses (lines 74 to 79); any other exception propagates.\<close>

definition parse_as_except :: "exn \<Rightarrow> exn + (pyval \<times> pyval)" where
  "parse_as_except e =
     (if e = JSONDecodeError then Inr (PNone, PDict [])
      else if e = ValueError then Inr (PNone, PDict [])
      else if e = SyntaxError then Inr (PNone, PDict [])
      else Inl e)"

definition parse_as :: "env \<Rightarrow> pystr \<Rightarrow> decoder \<Rightarrow> exn + (pyval \<times> pyval)" where
  "parse_as E text func =
     (case parse_as_try E text func of
        Inl e \<Rightarrow> parse_as_except e
      | Inr r \<Rightarrow> Inr r)"

section \<open>The fallback chain\<close>

text \<open>
  Lines 134 to 138 of \<open>repl\<close>. The pair of \<open>make_alts_from_text\<close> enters as Python
  values: a list of one \<open>str\<close>, and \<open>None\<close> or a \<open>str\<close>.
\<close>

definition text_result :: "pystr list \<times> pystr option \<Rightarrow> pyval \<times> pyval" where
  "text_result r =
     (PList (map PStr (fst r)), (case snd r of None \<Rightarrow> PNone | Some c \<Rightarrow> PStr c))"

definition parse :: "env \<Rightarrow> pystr \<Rightarrow> exn + (pyval \<times> pyval)" where
  "parse E raw =
     (case parse_as E raw (json_loads E) of
        Inl e \<Rightarrow> Inl e
      | Inr (utterance, context) \<Rightarrow>
          if truthy utterance then Inr (utterance, context)
          else
            (case parse_as E raw (literal_eval E) of
               Inl e \<Rightarrow> Inl e
             | Inr (utterance, context) \<Rightarrow>
                 if truthy utterance then Inr (utterance, context)
                 else
                   (case make_alts_from_text raw of
                      Inl e \<Rightarrow> Inl e
                    | Inr r \<Rightarrow> Inr (text_result r))))"

section \<open>The interactive loop\<close>

text \<open>
  What the operator does is a script: the results of the successive calls of \<open>prompt\<close>,
  each a string or an exception (\<open>KeyboardInterrupt\<close> on C-c, \<open>EOFError\<close> on C-d). When
  the script is used up the operator never answers, and \<open>prompt\<close> blocks. What the loop
  does is the list of its events.
\<close>

type_synonym script = "(exn + pystr) list"

datatype event =
    Prompted bool
  | LogUtterance pyval
  | LogContext pyval
  | Invoked pyval pyval int
  | LogResponse pyval
  | LogExiting

datatype stop = Raised exn | Blocked

fun prompt :: "bool \<Rightarrow> script \<Rightarrow> event list \<times> (stop + pystr) \<times> script" where
  "prompt show_help [] = ([Prompted show_help], Inl Blocked, [])"
| "prompt show_help (Inl e # rest) = ([Prompted show_help], Inl (Raised e), rest)"
| "prompt show_help (Inr raw # rest) = ([Prompted show_help], Inr raw, rest)"

text \<open>Lines 120 to 131: read \<open>raw\<close>, once more after the help sentinel.\<close>

definition read_raw :: "bool \<Rightarrow> script \<Rightarrow> event list \<times> (stop + pystr) \<times> script" where
  "read_raw show_help sc =
     (case prompt show_help sc of
        (evs, Inl st, rest) \<Rightarrow> (evs, Inl st, rest)
      | (evs, Inr raw, rest) \<Rightarrow>
          if raw = str ''--help'' then
            (case prompt True rest of (evs', r, rest') \<Rightarrow> (evs @ evs', r, rest'))
          else (evs, Inr raw, rest))"

text \<open>Lines 134 to 154: parse, log, call the pipeline, log the response.\<close>

definition iteration :: "env \<Rightarrow> nat \<Rightarrow> pystr \<Rightarrow> event list \<times> exn option" where
  "iteration E n raw =
     (case parse E raw of
        Inl e \<Rightarrow> ([], Some e)
      | Inr (utterance, context) \<Rightarrow>
          (case PREDICT_API E utterance context (now_ms E n) of
             Inl e \<Rightarrow>
               ([LogUtterance utterance, LogContext context,
                 Invoked utterance context (now_ms E n)], Some e)
           | Inr response \<Rightarrow>
               ([LogUtterance utterance, LogContext context,
                 Invoked utterance context (now_ms E n), LogResponse response], None)))"

text \<open>The \<open>while True\<close> of lines 119 to 154: it ends by an exception only.\<close>

function loop :: "env \<Rightarrow> bool \<Rightarrow> nat \<Rightarrow> script \<Rightarrow> event list \<times> stop" where
  "loop E show_help n sc =
     (case read_raw show_help sc of
        (evs, Inl st, rest) \<Rightarrow> (evs, st)
      | (evs, Inr raw, rest) \<Rightarrow>
          (case iteration E n raw of
             (evs', Some e) \<Rightarrow> (evs @ evs', Raised e)
           | (evs', None) \<Rightarrow>
               (case loop E False (Suc n) rest of
                  (evs'', st) \<Rightarrow> (evs @ evs' @ evs'', st))))"
  by pat_completeness auto
termination
  by (relation "measure (\<lambda>(E, show_help, n, sc). length sc)")
     (auto simp: read_raw_def split: if_splits prod.splits sum.splits elim!: prompt.elims)

declare loop.simps [simp del]

text \<open>
  \<open>repl\<close>: the \<open>try\<close> of line 118 encloses the loop, with the two handlers of lines 155
  to 158. \<open>Exiting\<close> is the return after the message, \<open>Propagated e\<close> the exception
  leaving \<open>repl\<close>, \<open>Waiting\<close> the loop blocked in \<open>prompt\<close> at the end of the script.
\<close>

datatype outcome = Exiting | Propagated exn | Waiting

definition repl :: "env \<Rightarrow> script \<Rightarrow> event list \<times> outcome" where
  "repl E sc =
     (case loop E True 0 sc of
        (evs, Raised e) \<Rightarrow>
          if e = KeyboardInterrupt then (evs @ [LogExiting], Exiting)
          else if e = EOFError then (evs @ [LogExiting], Exiting)
          else (evs, Propagated e)
      | (evs, Blocked) \<Rightarrow> (evs, Waiting))"

section \<open>The specification's words\<close>

text \<open>
  The normalization as the specification words it: every character that is not an ASCII
  letter, digit or space is removed; runs of whitespace are collapsed to one space; the
  text is lowercased and trimmed.
\<close>

definition spec_normalize :: "pystr \<Rightarrow> pystr" where
  "spec_normalize t =
     strip (lower (re_sub_plus is_space [32] (filter (\<lambda>c. alnum c \<or> c = 32) t)))"

text \<open>
  A structured tier falls through on a decode failure (one of the three exceptions named
  by \<open>parse_as\<close>) and on a decoded value that is neither a dict nor a list.
\<close>

definition rejected :: "decoder \<Rightarrow> pystr \<Rightarrow> bool" where
  "rejected func text =
     (case func text of
        Inl e \<Rightarrow> e = JSONDecodeError \<or> e = ValueError \<or> e = SyntaxError
      | Inr content \<Rightarrow>
          (case content of PDict kvs \<Rightarrow> False | PList xs \<Rightarrow> False | _ \<Rightarrow> True))"

text \<open>The characters of a normalized text, and two neighbours that are not both whitespace.\<close>

definition lower_alnum_space :: "codepoint \<Rightarrow> bool" where
  "lower_alnum_space c = ((97 \<le> c \<and> c \<le> 122) \<or> (48 \<le> c \<and> c \<le> 57) \<or> c = 32)"

definition apart :: "codepoint \<Rightarrow> codepoint \<Rightarrow> bool" where
  "apart a b = (\<not> (is_space a \<and> is_space b))"

section \<open>An environment for concrete runs\<close>

text \<open>
  The answers of \<open>json.loads\<close> and \<open>ast.literal_eval\<close> of CPython on the inputs that
  the concrete runs below use. The inputs listed decode as shown. On the others used
  (\<open>hi\<close>, \<open>a-b\<close>, \<open>x | y | z\<close>, \<open>--help\<close>, \<open>hello, world!\<close>) \<open>json.loads\<close> raises
  \<open>JSONDecodeError\<close>, and \<open>ast.literal_eval\<close> raises \<open>SyntaxError\<close> on the last and
  \<open>ValueError\<close> (malformed node) on the first four. The normaliser returns a list as it
  is and wraps a string; the pipeline answers with an empty list; the clock advances by
  a second per pass.
\<close>

definition json_loads_sample :: decoder where
  "json_loads_sample s =
     (if s = str ''[\"hi\"]'' then Inr (PList [PStr (str ''hi'')])
      else if s = str ''{\"a\": 1}'' then Inr (PDict [(PStr (str ''a''), PInt 1)])
      else if s = str ''{\"alternatives\": [\"hi\"], \"context\": \"COF1\"}'' then
        Inr (PDict [(PStr (str ''alternatives''), PList [PStr (str ''hi'')]),
                    (PStr (str ''context''), PStr (str ''COF1''))])
      else if s = str ''7'' then Inr (PInt 7)
      else Inl JSONDecodeError)"

definition literal_eval_sample :: decoder where
  "literal_eval_sample s =
     (if s = str ''['hi']'' then Inr (PList [PStr (str ''hi'')])
      else if s = str ''hello, world!'' then Inl SyntaxError
      else (case json_loads_sample s of Inl e \<Rightarrow> Inl ValueError | Inr v \<Rightarrow> Inr v))"

definition normalize_sample :: "pyval \<Rightarrow> exn + pyval" where
  "normalize_sample v =
     (case v of
        PList xs \<Rightarrow> Inr (PList xs)
      | PStr s \<Rightarrow> Inr (PList [PStr s])
      | _ \<Rightarrow> Inl TypeError)"

definition sample_env :: env where
  "sample_env =
     \<lparr>json_loads = json_loads_sample, literal_eval = literal_eval_sample,
      normalize = normalize_sample, PREDICT_API = (\<lambda>u c t. Inr (PList [])),
      now_ms = (\<lambda>n. 1000 * int n)\<rparr>"

text \<open>The same environment with a pipeline that raises \<open>e\<close> on every call.\<close>

definition raising_env :: "exn \<Rightarrow> env" where
  "raising_env e = sample_env\<lparr>PREDICT_API := (\<lambda>u c t. Inl e)\<rparr>"

lemmas sample_defs =
  sample_env_def raising_env_def json_loads_sample_def literal_eval_sample_def
  normalize_sample_def

lemmas text_defs =
  str_def make_alts_from_text_def pipe_def normalize_text_def strip_def lower_def
  lower_cp_def is_space_def not_alnum_space_def alnum_def

lemmas chain_defs =
  parse_def parse_as_def parse_as_try_def parse_as_except_def getitem_def
  ALTERNATIVES_def CONTEXT_def text_result_def rejected_def

lemmas loop_defs = repl_def loop.simps read_raw_def iteration_def

section \<open>The normalization of the plain-text tier\<close>

lemma re_sub_plus_set:
  "set (re_sub_plus X rep s) \<subseteq> {c \<in> set s. \<not> X c} \<union> set rep"
proof (induction X rep s rule: re_sub_plus.induct)
  case (1 X rep)
  then show ?case by simp
next
  case (2 X rep c cs)
  have "set (dropWhile X cs) \<subseteq> set cs" by (rule set_dropWhileD [THEN subsetI]) 
  with 2 show ?case by auto
qed

lemma re_sub_plus_id:
  "\<forall>c \<in> set s. \<not> X c \<Longrightarrow> re_sub_plus X rep s = s"
  by (induction s) auto

lemma is_space_lower_cp: "is_space (lower_cp c) = is_space c"
  by (auto simp: is_space_def lower_cp_def)

lemma re_sub_space_apart: "successively apart (re_sub_plus is_space [32] s)"
proof (induction is_space "[32::nat]" s rule: re_sub_plus.induct)
  case 1
  then show ?case by simp
next
  case (2 c cs)
  show ?case
  proof (cases "is_space c")
    case True
    show ?thesis
    proof (cases "dropWhile is_space cs")
      case Nil
      have "re_sub_plus is_space [32] (c # cs) = [32]"
        using True Nil by (simp del: dropWhile_eq_Nil_conv)
      then show ?thesis by simp
    next
      case (Cons d ds)
      then have nd: "\<not> is_space d" using hd_dropWhile [of is_space cs] by simp
      have e: "re_sub_plus is_space [32] (c # cs) = 32 # d # re_sub_plus is_space [32] ds"
        using True Cons nd by simp
      have "successively apart (d # re_sub_plus is_space [32] ds)"
        using 2(1) [OF True] Cons nd by simp
      then show ?thesis unfolding e using nd
        by (simp add: apart_def)
    qed
  next
    case False
    with 2(2) show ?thesis
      by (simp add: successively_Cons apart_def)
  qed
qed

lemma re_sub_space_fixed:
  "successively apart s \<Longrightarrow> \<forall>c \<in> set s. is_space c \<longrightarrow> c = 32
   \<Longrightarrow> re_sub_plus is_space [32] s = s"
proof (induction is_space "[32::nat]" s rule: re_sub_plus.induct)
  case 1
  then show ?case by simp
next
  case (2 c cs)
  show ?case
  proof (cases "is_space c")
    case True
    with 2(4) have c: "c = 32" by simp
    have d: "dropWhile is_space cs = cs"
      using 2(3) True by (cases cs) (auto simp: apart_def)
    have sc: "successively apart cs" using 2(3) by (auto simp: successively_Cons)
    have al: "\<forall>c \<in> set cs. is_space c \<longrightarrow> c = 32" using 2(4) by simp
    have "re_sub_plus is_space [32] cs = cs"
      using 2(1) [OF True] sc al unfolding d by blast
    moreover have "re_sub_plus is_space [32] (c # cs) = 32 # re_sub_plus is_space [32] cs"
      using True d by simp
    ultimately show ?thesis using c by simp
  next
    case False
    have sc: "successively apart cs" using 2(3) by (auto simp: successively_Cons)
    have al: "\<forall>c \<in> set cs. is_space c \<longrightarrow> c = 32" using 2(4) by simp
    have "re_sub_plus is_space [32] cs = cs"
      using 2(2) [OF False] sc al by blast
    then show ?thesis using False by simp
  qed
qed

lemma apart_sym: "(\<lambda>x y. apart y x) = apart"
  by (auto simp: apart_def fun_eq_iff)

lemma successively_dropWhile:
  "successively R s \<Longrightarrow> successively R (dropWhile X s)"
  by (induction s) (auto simp: successively_Cons)

lemma strip_apart: "successively apart s \<Longrightarrow> successively apart (strip s)"
  by (simp add: strip_def apart_sym successively_dropWhile)

lemma strip_set: "set (strip s) \<subseteq> set s"
proof
  fix x assume "x \<in> set (strip s)"
  then have "x \<in> set (dropWhile is_space (rev (dropWhile is_space s)))"
    by (simp add: strip_def)
  then have "x \<in> set (rev (dropWhile is_space s))" by (rule set_dropWhileD)
  then have "x \<in> set (dropWhile is_space s)" by simp
  then show "x \<in> set s" by (rule set_dropWhileD)
qed

lemma dropWhile_id_hd: "s \<noteq> [] \<Longrightarrow> \<not> X (hd s) \<Longrightarrow> dropWhile X s = s"
  by (cases s) auto

lemma strip_strip: "strip (strip s) = strip s"
proof -
  define u where "u = dropWhile is_space s"
  define v where "v = dropWhile is_space (rev u)"
  have s: "strip s = rev v" by (simp add: strip_def u_def v_def)
  show ?thesis
  proof (cases "v = []")
    case True
    with s have e: "strip s = []" by simp
    have "strip [] = []" by (simp add: strip_def)
    then show ?thesis unfolding e .
  next
    case False
    then have hv: "\<not> is_space (hd v)" unfolding v_def using hd_dropWhile by blast
    have "u \<noteq> []" using False v_def by auto
    then have hu: "\<not> is_space (hd u)" unfolding u_def using hd_dropWhile by blast
    have "\<exists>w. rev u = w @ v" unfolding v_def
      by (metis takeWhile_dropWhile_id)
    then obtain w where w: "rev u = w @ v" by blast
    then have "u = rev v @ rev w" by (metis rev_append rev_rev_ident)
    with False have "hd (rev v) = hd u" by simp
    with hu have "dropWhile is_space (rev v) = rev v"
      using False by (simp add: dropWhile_id_hd)
    moreover have "dropWhile is_space v = v" using False hv by (simp add: dropWhile_id_hd)
    ultimately show ?thesis using s by (simp add: strip_def)
  qed
qed


lemma re_sub_not_alnum_space_chars:
  "\<forall>c \<in> set (re_sub_plus not_alnum_space [32] s). alnum c \<or> c = 32"
  using re_sub_plus_set [of not_alnum_space "[32]" s]
  by (auto simp: not_alnum_space_def)

lemma re_sub_space_chars:
  "\<forall>c \<in> set s. alnum c \<or> c = 32 \<Longrightarrow>
   \<forall>c \<in> set (re_sub_plus is_space [32] s). alnum c \<or> c = 32"
  using re_sub_plus_set [of is_space "[32]" s] by auto

lemma lower_cp_chars: "alnum c \<or> c = 32 \<Longrightarrow> lower_alnum_space (lower_cp c)"
  by (auto simp: alnum_def lower_cp_def lower_alnum_space_def)

lemma normalize_text_chars: "\<forall>c \<in> set (normalize_text s). lower_alnum_space c"
proof
  fix c assume "c \<in> set (normalize_text s)"
  then have "c \<in> set (lower (re_sub_plus is_space [32] (re_sub_plus not_alnum_space [32] s)))"
    using strip_set unfolding normalize_text_def by blast
  then obtain d where d: "d \<in> set (re_sub_plus is_space [32] (re_sub_plus not_alnum_space [32] s))"
    and c: "c = lower_cp d"
    by (auto simp: lower_def)
  from d have "alnum d \<or> d = 32"
    using re_sub_space_chars [OF re_sub_not_alnum_space_chars] by blast
  then show "lower_alnum_space c" unfolding c by (rule lower_cp_chars)
qed

lemma normalize_text_apart: "successively apart (normalize_text s)"
proof -
  have "successively apart (re_sub_plus is_space [32] (re_sub_plus not_alnum_space [32] s))"
    by (rule re_sub_space_apart)
  then have "successively apart
      (lower (re_sub_plus is_space [32] (re_sub_plus not_alnum_space [32] s)))"
    by (simp add: lower_def successively_map apart_def is_space_lower_cp)
  then show ?thesis unfolding normalize_text_def by (rule strip_apart)
qed

lemma lower_alnum_space_fixed:
  assumes "\<forall>c \<in> set t. lower_alnum_space c" and "successively apart t"
  shows "lower (re_sub_plus is_space [32] (re_sub_plus not_alnum_space [32] t)) = t"
proof -
  have "\<forall>c \<in> set t. \<not> not_alnum_space c"
    using assms(1) by (auto simp: lower_alnum_space_def not_alnum_space_def alnum_def)
  then have a: "re_sub_plus not_alnum_space [32] t = t" by (rule re_sub_plus_id)
  have "\<forall>c \<in> set t. is_space c \<longrightarrow> c = 32"
    using assms(1) by (auto simp: lower_alnum_space_def is_space_def)
  with assms(2) have b: "re_sub_plus is_space [32] t = t" by (rule re_sub_space_fixed)
  have "\<forall>c \<in> set t. lower_cp c = c"
    using assms(1) by (auto simp: lower_alnum_space_def lower_cp_def)
  then have "lower t = t" unfolding lower_def by (simp add: map_idI)
  with a b show ?thesis by simp
qed

text \<open>
  C7. The normalization of line 51 is idempotent: applying it to its own result changes
  nothing, so every normalized text is a fixed point.
\<close>

theorem normalize_text_idempotent:
  "normalize_text (normalize_text s) = normalize_text s"
proof -
  define x where "x = lower (re_sub_plus is_space [32] (re_sub_plus not_alnum_space [32] s))"
  have n: "normalize_text s = strip x" by (simp add: normalize_text_def x_def)
  have "lower (re_sub_plus is_space [32] (re_sub_plus not_alnum_space [32] (normalize_text s)))
        = normalize_text s"
    using normalize_text_chars normalize_text_apart by (rule lower_alnum_space_fixed)
  then have "normalize_text (normalize_text s) = strip (normalize_text s)"
    by (simp add: normalize_text_def)
  also have "\<dots> = strip (strip x)" by (simp only: n)
  also have "\<dots> = strip x" by (rule strip_strip)
  finally show ?thesis by (simp only: n)
qed


section \<open>Splitting at the delimiter\<close>

lemma split_on_length: "length (split_on sep s) = Suc (count_list s sep)"
  by (induction s) (auto split: list.splits)

lemma split_on_no_sep: "sep \<notin> set s \<Longrightarrow> split_on sep s = [s]"
  by (induction s) auto

lemma split_on_first: "sep \<notin> set a \<Longrightarrow> split_on sep (a @ sep # r) = a # split_on sep r"
  by (induction a) auto

text \<open>One delimiter: the text before it is normalized, the text after it is trimmed.\<close>

lemma make_alts_one_pipe:
  "pipe \<notin> set a \<Longrightarrow> pipe \<notin> set b \<Longrightarrow>
   make_alts_from_text (a @ pipe # b) = Inr ([normalize_text a], Some (strip b))"
  by (simp add: make_alts_from_text_def split_on_first split_on_no_sep)

lemma make_alts_fruit_juice:
  "make_alts_from_text (str ''I need fruit juice | COF1'')
     = Inr ([str ''i need fruit juice''], Some (str ''COF1''))"
  by (simp add: text_defs)

text \<open>Two delimiters or more: the unpacking of line 45 raises, whatever the three parts.\<close>

lemma make_alts_two_pipes:
  "make_alts_from_text (a @ pipe # b @ pipe # c) = Inl ValueError"
proof -
  have "3 \<le> length (split_on pipe (a @ pipe # b @ pipe # c))"
    by (simp add: split_on_length)
  then show ?thesis
    by (auto simp: make_alts_from_text_def split: list.splits)
qed

text \<open>
  C4. The claim: a string with a \<open>|\<close> is split at the first \<open>|\<close>, also when it holds
  two or more. The code at \<open>a|b|c\<close>: \<open>text.split("|")\<close> has three parts, the unpacking
  into two names raises \<open>ValueError\<close>, and no utterance is returned.
\<close>

theorem make_alts_from_text_two_pipes_raises: "make_alts_from_text (str ''a|b|c'') = Inl ValueError"
  by (simp add: text_defs)

section \<open>The structured tiers\<close>

lemma parse_as_rejected:
  "rejected func text \<Longrightarrow> parse_as E text func = Inr (PNone, PDict [])"
  by (auto simp: rejected_def parse_as_def parse_as_try_def parse_as_except_def
           split: sum.splits pyval.splits)

lemma parse_as_literal_eval_update:
  "parse_as (E\<lparr>literal_eval := d\<rparr>) text func = parse_as E text func"
  by (simp add: parse_as_def parse_as_try_def cong: sum.case_cong pyval.case_cong)

text \<open>
  C2. The claim: a decoded mapping without the key "alternatives" or "context" gives
  \<open>(None, {})\<close>. The code at \<open>{"a": 1}\<close>: \<open>content["alternatives"]\<close> raises \<open>KeyError\<close>,
  which none of the three \<open>except\<close> clauses names, so it leaves \<open>parse_as\<close>.
\<close>

theorem parse_as_missing_key_raises:
  "json_loads_sample (str ''{\"a\": 1}'') = Inr (PDict [(PStr (str ''a''), PInt 1)])
   \<and> parse_as E (str ''{\"a\": 1}'') json_loads_sample = Inl KeyError"
  by (simp add: sample_defs text_defs chain_defs)

text \<open>
  C10. When the decoded value is a dict with both keys and the normaliser returns, the
  value under "context" is returned as it is, whatever its type, and, when the JSON tier
  wins, it is the context of the pipeline call.
\<close>

theorem context_passed_unchanged:
  assumes "func text = Inr (PDict kvs)"
    and "map_of kvs (PStr ALTERNATIVES) = Some alts"
    and "map_of kvs (PStr CONTEXT) = Some context"
    and "normalize E alts = Inr utterance"
  shows "parse_as E text func = Inr (utterance, context)
     \<and> (func = json_loads E \<and> truthy utterance \<longrightarrow>
          parse E text = Inr (utterance, context)
          \<and> Invoked utterance context (now_ms E n) \<in> set (fst (iteration E n text)))"
proof -
  have a: "parse_as E text func = Inr (utterance, context)"
    using assms by (simp add: parse_as_def parse_as_try_def getitem_def)
  then show ?thesis
    by (auto simp: parse_def iteration_def split: sum.splits)
qed

theorem context_passed_unchanged_witness:
  "json_loads_sample (str ''{\"alternatives\": [\"hi\"], \"context\": \"COF1\"}'')
     = Inr (PDict [(PStr (str ''alternatives''), PList [PStr (str ''hi'')]),
                   (PStr (str ''context''), PStr (str ''COF1''))])
   \<and> parse_as sample_env (str ''{\"alternatives\": [\"hi\"], \"context\": \"COF1\"}'')
         json_loads_sample
       = Inr (PList [PStr (str ''hi'')], PStr (str ''COF1''))
   \<and> parse sample_env (str ''{\"alternatives\": [\"hi\"], \"context\": \"COF1\"}'')
       = Inr (PList [PStr (str ''hi'')], PStr (str ''COF1''))
   \<and> Invoked (PList [PStr (str ''hi'')]) (PStr (str ''COF1'')) 0
       \<in> set (fst (iteration sample_env 0
                     (str ''{\"alternatives\": [\"hi\"], \"context\": \"COF1\"}'')))"
proof -
  let ?kvs = "[(PStr (str ''alternatives''), PList [PStr (str ''hi'')]),
               (PStr (str ''context''), PStr (str ''COF1''))]"
  have a: "json_loads_sample (str ''{\"alternatives\": [\"hi\"], \"context\": \"COF1\"}'')
     = Inr (PDict ?kvs)"
    by (simp add: sample_defs str_def)
  have b: "map_of ?kvs (PStr ALTERNATIVES) = Some (PList [PStr (str ''hi'')])"
    by (simp add: ALTERNATIVES_def str_def)
  have c: "map_of ?kvs (PStr CONTEXT) = Some (PStr (str ''COF1''))"
    by (simp add: CONTEXT_def str_def)
  have d: "normalize sample_env (PList [PStr (str ''hi'')]) = Inr (PList [PStr (str ''hi'')])"
    by (simp add: sample_defs)
  have e: "json_loads_sample = json_loads sample_env" by (simp add: sample_defs)
  have f: "now_ms sample_env 0 = 0" by (simp add: sample_defs)
  from context_passed_unchanged [where func = json_loads_sample and E = sample_env and n = 0, OF a b c d] a e f
  show ?thesis by simp
qed

section \<open>The fallback chain\<close>

lemma chain_falls_to_text:
  assumes "rejected (json_loads E) raw" and "rejected (literal_eval E) raw"
  shows "parse E raw = map_sum id text_result (make_alts_from_text raw)"
  using assms by (simp add: parse_def parse_as_rejected split: sum.splits)

text \<open>
  C3, as the code has it. For a string without \<open>|\<close> on which both structured tiers fall
  through, the utterance is the one string obtained by replacing every maximal run of
  characters that are not ASCII letters, digits or spaces by one space, collapsing the
  runs of whitespace to one space, lowercasing and trimming; the context is \<open>None\<close>.
\<close>

theorem plain_text_tier_result:
  assumes "pipe \<notin> set raw"
    and "rejected (json_loads E) raw"
    and "rejected (literal_eval E) raw"
  shows "parse E raw =
     Inr (PList [PStr (strip (lower (re_sub_plus is_space [32]
                        (re_sub_plus not_alnum_space [32] raw))))], PNone)"
  using assms(1) chain_falls_to_text [OF assms(2) assms(3)]
  by (simp add: make_alts_from_text_def text_result_def normalize_text_def)

theorem plain_text_tier_result_witness:
  "pipe \<notin> set (str ''hello, world!'')
   \<and> rejected (json_loads sample_env) (str ''hello, world!'')
   \<and> rejected (literal_eval sample_env) (str ''hello, world!'')
   \<and> parse sample_env (str ''hello, world!'') = Inr (PList [PStr (str ''hello world'')], PNone)"
proof -
  have a: "pipe \<notin> set (str ''hello, world!'')" by (simp add: text_defs)
  have b: "rejected (json_loads sample_env) (str ''hello, world!'')"
    by (simp add: sample_defs rejected_def str_def)
  have c: "rejected (literal_eval sample_env) (str ''hello, world!'')"
    by (simp add: sample_defs rejected_def str_def)
  show ?thesis using a b c plain_text_tier_result [OF a b c] by (simp add: text_defs)
qed

text \<open>
  C3, as the specification words it (the characters removed), fails at \<open>a-b\<close>: the
  code gives \<open>a b\<close>, the removal gives \<open>ab\<close>.
\<close>

theorem removal_counterexample:
  "pipe \<notin> set (str ''a-b'')
   \<and> rejected (json_loads sample_env) (str ''a-b'')
   \<and> rejected (literal_eval sample_env) (str ''a-b'')
   \<and> parse sample_env (str ''a-b'') = Inr (PList [PStr (str ''a b'')], PNone)
   \<and> spec_normalize (str ''a-b'') = str ''ab''
   \<and> parse sample_env (str ''a-b'') \<noteq> Inr (PList [PStr (spec_normalize (str ''a-b''))], PNone)"
  by (simp add: sample_defs text_defs chain_defs spec_normalize_def)

text \<open>
  C6. The tiers are tried in the order JSON, literal, plain text, and the first that
  gives a truthy utterance decides: after a truthy JSON tier the result does not depend
  on the literal decoder; the literal tier decides only after a falsy JSON tier; the
  plain-text tier decides only after both were falsy.
\<close>

theorem tiers_in_order:
  "(parse_as E raw (json_loads E) = Inr (u, c) \<and> truthy u
      \<longrightarrow> parse E raw = Inr (u, c) \<and> parse (E\<lparr>literal_eval := d\<rparr>) raw = Inr (u, c))
   \<and> (parse_as E raw (json_loads E) = Inr (u1, c1) \<and> \<not> truthy u1
        \<and> parse_as E raw (literal_eval E) = Inr (u, c) \<and> truthy u
      \<longrightarrow> parse E raw = Inr (u, c))
   \<and> (parse_as E raw (json_loads E) = Inr (u1, c1) \<and> \<not> truthy u1
        \<and> parse_as E raw (literal_eval E) = Inr (u2, c2) \<and> \<not> truthy u2
      \<longrightarrow> parse E raw = map_sum id text_result (make_alts_from_text raw))"
  by (auto simp: parse_def parse_as_literal_eval_update split: sum.splits)

theorem tiers_in_order_witness:
  "(parse_as sample_env (str ''[\"hi\"]'') (json_loads sample_env)
        = Inr (PList [PStr (str ''hi'')], PDict [])
    \<and> truthy (PList [PStr (str ''hi'')])
    \<and> parse sample_env (str ''[\"hi\"]'') = Inr (PList [PStr (str ''hi'')], PDict [])
    \<and> parse (sample_env\<lparr>literal_eval := (\<lambda>s. Inl TypeError)\<rparr>) (str ''[\"hi\"]'')
        = Inr (PList [PStr (str ''hi'')], PDict []))
   \<and> (parse_as sample_env (str ''['hi']'') (json_loads sample_env) = Inr (PNone, PDict [])
    \<and> \<not> truthy PNone
    \<and> parse_as sample_env (str ''['hi']'') (literal_eval sample_env)
        = Inr (PList [PStr (str ''hi'')], PDict [])
    \<and> parse sample_env (str ''['hi']'') = Inr (PList [PStr (str ''hi'')], PDict []))
   \<and> (parse_as sample_env (str ''hi'') (json_loads sample_env) = Inr (PNone, PDict [])
    \<and> parse_as sample_env (str ''hi'') (literal_eval sample_env) = Inr (PNone, PDict [])
    \<and> parse sample_env (str ''hi'') = Inr (PList [PStr (str ''hi'')], PNone))"
proof -
  have a: "parse_as sample_env (str ''[\"hi\"]'') (json_loads sample_env)
        = Inr (PList [PStr (str ''hi'')], PDict [])"
    by (simp add: sample_defs chain_defs str_def)
  have b1: "parse_as sample_env (str ''['hi']'') (json_loads sample_env) = Inr (PNone, PDict [])"
    by (simp add: sample_defs chain_defs str_def)
  have b2: "parse_as sample_env (str ''['hi']'') (literal_eval sample_env)
        = Inr (PList [PStr (str ''hi'')], PDict [])"
    by (simp add: sample_defs chain_defs str_def)
  have c1: "parse_as sample_env (str ''hi'') (json_loads sample_env) = Inr (PNone, PDict [])"
    by (simp add: sample_defs chain_defs str_def)
  have c2: "parse_as sample_env (str ''hi'') (literal_eval sample_env) = Inr (PNone, PDict [])"
    by (simp add: sample_defs chain_defs str_def)
  have m: "map_sum id text_result (make_alts_from_text (str ''hi''))
        = Inr (PList [PStr (str ''hi'')], PNone)"
    by (simp add: text_defs text_result_def)
  from a tiers_in_order [of sample_env "str ''[\"hi\"]''" "PList [PStr (str ''hi'')]" "PDict []"
                    "\<lambda>s. Inl TypeError"]
  have A: "parse sample_env (str ''[\"hi\"]'') = Inr (PList [PStr (str ''hi'')], PDict [])
    \<and> parse (sample_env\<lparr>literal_eval := (\<lambda>s. Inl TypeError)\<rparr>) (str ''[\"hi\"]'')
        = Inr (PList [PStr (str ''hi'')], PDict [])"
    by simp
  from b1 b2 tiers_in_order [of sample_env "str ''['hi']''" "PList [PStr (str ''hi'')]" "PDict []"
                    _ PNone "PDict []"]
  have B: "parse sample_env (str ''['hi']'') = Inr (PList [PStr (str ''hi'')], PDict [])"
    by simp
  from c1 c2 m tiers_in_order [of sample_env "str ''hi''" _ _ _ PNone "PDict []" PNone "PDict []"]
  have C: "parse sample_env (str ''hi'') = Inr (PList [PStr (str ''hi'')], PNone)"
    by simp
  from a b1 b2 c1 c2 A B C show ?thesis by simp
qed

text \<open>
  C1. The claim: parsing returns a pair for every string. The code at \<open>x | y | z\<close>:
  both structured tiers fall through, \<open>make_alts_from_text\<close> raises \<open>ValueError\<close>, and
  the exception leaves \<open>repl\<close>.
\<close>

theorem parse_raises_on_two_pipes:
  "parse sample_env (str ''x | y | z'') = Inl ValueError
   \<and> repl sample_env [Inr (str ''x | y | z'')] = ([Prompted True], Propagated ValueError)"
  by (simp add: sample_defs text_defs chain_defs loop_defs)

section \<open>The loop\<close>

lemma read_raw_shorter:
  "read_raw show_help sc = (evs, Inr raw, rest) \<Longrightarrow> length rest < length sc"
  by (auto simp: read_raw_def split: if_splits prod.splits sum.splits elim!: prompt.elims)

lemma read_raw_events:
  "read_raw show_help sc = (evs, r, rest) \<Longrightarrow> Invoked u c t \<notin> set evs"
  by (auto simp: read_raw_def split: if_splits prod.splits sum.splits elim!: prompt.elims)

lemma iteration_None:
  "iteration E n raw = (evs, None) \<Longrightarrow>
   \<exists>u c r. evs = [LogUtterance u, LogContext c, Invoked u c (now_ms E n), LogResponse r]
     \<and> PREDICT_API E u c (now_ms E n) = Inr r"
  by (auto simp: iteration_def split: sum.splits prod.splits)

lemma iteration_Some:
  "iteration E n raw = (evs, Some e) \<Longrightarrow>
   evs = [] \<or> (\<exists>u c. evs = [LogUtterance u, LogContext c, Invoked u c (now_ms E n)]
     \<and> PREDICT_API E u c (now_ms E n) = Inl e)"
  by (auto simp: iteration_def split: sum.splits prod.splits)

lemma loop_invoked_raises:
  "loop E show_help n sc = (evs, st) \<Longrightarrow> Invoked u c t \<in> set evs \<Longrightarrow>
   PREDICT_API E u c t = Inl e \<Longrightarrow> st = Raised e \<and> (\<exists>pre. evs = pre @ [Invoked u c t])"
proof (induction "length sc" arbitrary: sc show_help n evs st rule: less_induct)
  case less
  obtain evs0 r rest where rr: "read_raw show_help sc = (evs0, r, rest)"
    by (cases "read_raw show_help sc") auto
  have no0: "Invoked u c t \<notin> set evs0" using rr by (rule read_raw_events)
  show ?case
  proof (cases r)
    case (Inl s)
    with rr less.prems(1) have "evs = evs0" by (subst (asm) loop.simps) simp
    with no0 less.prems(2) show ?thesis by simp
  next
    case (Inr raw)
    obtain evs1 x where it: "iteration E n raw = (evs1, x)"
      by (cases "iteration E n raw") auto
    show ?thesis
    proof (cases x)
      case None
      obtain evs2 st2 where l2: "loop E False (Suc n) rest = (evs2, st2)"
        by (cases "loop E False (Suc n) rest") auto
      have e: "evs = evs0 @ evs1 @ evs2" and s: "st = st2"
        using less.prems(1) rr Inr it None l2 by (subst (asm) loop.simps, simp)+
      from it None obtain u' c' r' where
        ev1: "evs1 = [LogUtterance u', LogContext c', Invoked u' c' (now_ms E n), LogResponse r']"
        and ok: "PREDICT_API E u' c' (now_ms E n) = Inr r'"
        using iteration_None by blast
      have "Invoked u c t \<notin> set evs1" using ev1 ok less.prems(3) by auto
      with no0 e less.prems(2) have in2: "Invoked u c t \<in> set evs2" by simp
      have sh: "length rest < length sc" using rr Inr read_raw_shorter by blast
      from less.hyps [OF sh l2 in2 less.prems(3)]
      obtain pre where "st2 = Raised e" and "evs2 = pre @ [Invoked u c t]" by blast
      with e s show ?thesis by simp
    next
      case (Some e')
      have e: "evs = evs0 @ evs1" and s: "st = Raised e'"
        using less.prems(1) rr Inr it Some by (subst (asm) loop.simps, simp)+
      from no0 e less.prems(2) have in1: "Invoked u c t \<in> set evs1" by simp
      then have "evs1 \<noteq> []" by auto
      with it Some obtain u' c' where
        ev1: "evs1 = [LogUtterance u', LogContext c', Invoked u' c' (now_ms E n)]"
        and bad: "PREDICT_API E u' c' (now_ms E n) = Inl e'"
        using iteration_Some by blast
      from in1 ev1 have q: "u' = u" "c' = c" "now_ms E n = t" by auto
      with bad less.prems(3) have "e' = e" by simp
      with e s ev1 q show ?thesis by simp
    qed
  qed
qed

lemma repl_invoked_raises:
  assumes "Invoked u c t \<in> set (fst (repl E sc))"
    and "PREDICT_API E u c t = Inl e"
  shows "\<exists>pre. repl E sc =
    (if e = KeyboardInterrupt \<or> e = EOFError
     then (pre @ [Invoked u c t, LogExiting], Exiting)
     else (pre @ [Invoked u c t], Propagated e))"
proof -
  obtain evs st where l: "loop E True 0 sc = (evs, st)"
    by (cases "loop E True 0 sc") auto
  have "Invoked u c t \<in> set evs"
    using assms(1) l by (auto simp: repl_def split: stop.splits if_splits)
  from loop_invoked_raises [OF l this assms(2)]
  obtain pre where "st = Raised e" and "evs = pre @ [Invoked u c t]" by blast
  with l show ?thesis by (auto simp: repl_def)
qed

lemma read_raw_Blocked:
  "read_raw show_help pre = (evs0, Inl Blocked, r) \<Longrightarrow>
   (pre = [] \<and> evs0 = [Prompted show_help])
   \<or> (pre = [Inr (str ''--help'')] \<and> evs0 = [Prompted show_help, Prompted True])"
  by (auto simp: read_raw_def split: if_splits prod.splits sum.splits elim!: prompt.elims)

lemma read_raw_append:
  "read_raw show_help pre = (evs0, Inr raw, r) \<Longrightarrow>
   read_raw show_help (pre @ x) = (evs0, Inr raw, r @ x)"
  by (auto simp: read_raw_def split: if_splits prod.splits sum.splits elim!: prompt.elims)







lemma parse_help:
  assumes "rejected (json_loads E) (str ''--help'')"
    and "rejected (literal_eval E) (str ''--help'')"
  shows "parse E (str ''--help'') = Inr (PList [PStr (str ''help'')], PNone)"
proof -
  have p: "pipe \<notin> set (str ''--help'')" by (simp add: str_def pipe_def)
  have n: "strip (lower (re_sub_plus is_space [32]
             (re_sub_plus not_alnum_space [32] (str ''--help'')))) = str ''help''"
    by (simp add: text_defs)
  show ?thesis
    using p n chain_falls_to_text [OF assms]
    by (simp add: make_alts_from_text_def text_result_def normalize_text_def)
qed

lemma iteration_help:
  assumes "parse E raw = Inr (u, c)"
  shows "\<exists>evs x. iteration E n raw =
     ([LogUtterance u, LogContext c, Invoked u c (now_ms E n)] @ evs, x)"
  using assms by (simp add: iteration_def split: sum.splits)

lemma help_any_pass:
  assumes "rejected (json_loads E) (str ''--help'')"
    and "rejected (literal_eval E) (str ''--help'')"
  shows "\<exists>evs st. loop E show_help n (Inr (str ''--help'') # Inr (str ''--help'') # rest) =
      ([Prompted show_help, Prompted True,
        LogUtterance (PList [PStr (str ''help'')]), LogContext PNone,
        Invoked (PList [PStr (str ''help'')]) PNone (now_ms E n)] @ evs, st)"
proof -
  have r: "read_raw show_help (Inr (str ''--help'') # Inr (str ''--help'') # rest)
       = ([Prompted show_help, Prompted True], Inr (str ''--help''), rest)"
    by (simp add: read_raw_def)
  from iteration_help [OF parse_help [OF assms], of n] obtain evs1 x where
    it: "iteration E n (str ''--help'') =
      ([LogUtterance (PList [PStr (str ''help'')]), LogContext PNone,
        Invoked (PList [PStr (str ''help'')]) PNone (now_ms E n)] @ evs1, x)"
    by blast
  show ?thesis
    by (subst loop.simps) (simp add: r it split: option.splits prod.splits)
qed

lemma help_after_prefix:
  assumes "rejected (json_loads E) (str ''--help'')"
    and "rejected (literal_eval E) (str ''--help'')"
    and "loop E show_help n pre = (evs, Blocked)"
    and "loop E show_help n (pre @ [Inr (str ''--help'')]) = (evs @ [Prompted True], Blocked)"
  shows "\<exists>k evs' st.
      loop E show_help n (pre @ Inr (str ''--help'') # Inr (str ''--help'') # rest) =
      (evs @ [Prompted True,
        LogUtterance (PList [PStr (str ''help'')]), LogContext PNone,
        Invoked (PList [PStr (str ''help'')]) PNone (now_ms E k)] @ evs', st)"
  using assms(3,4)
proof (induction "length pre" arbitrary: pre show_help n evs rule: less_induct)
  case less
  obtain evs0 r rest0 where rr: "read_raw show_help pre = (evs0, r, rest0)"
    by (cases "read_raw show_help pre") auto
  show ?case
  proof (cases r)
    case (Inl s)
    with rr less.prems(1) have s: "s = Blocked" and e: "evs = evs0"
      by (subst (asm) loop.simps, simp)+
    from read_raw_Blocked rr Inl s
    consider "pre = []" "evs0 = [Prompted show_help]"
      | "pre = [Inr (str ''--help'')]" "evs0 = [Prompted show_help, Prompted True]"
      by blast
    then show ?thesis
    proof cases
      case 1
      from help_any_pass [OF assms(1,2), of show_help n rest] 1 e show ?thesis
        by auto
    next
      case 2
      from help_any_pass [OF assms(1,2), of show_help n "[]"] obtain evs' st where
        "loop E show_help n [Inr (str ''--help''), Inr (str ''--help'')] =
          ([Prompted show_help, Prompted True,
            LogUtterance (PList [PStr (str ''help'')]), LogContext PNone,
            Invoked (PList [PStr (str ''help'')]) PNone (now_ms E n)] @ evs', st)"
        by blast
      with less.prems(2) 2 e have False by simp
      then show ?thesis ..
    qed
  next
    case (Inr raw0)
    obtain evs1 x where it: "iteration E n raw0 = (evs1, x)"
      by (cases "iteration E n raw0") auto
    obtain evs2 st2 where l2: "loop E False (Suc n) rest0 = (evs2, st2)"
      by (cases "loop E False (Suc n) rest0") auto
    have x: "x = None"
      using less.prems(1) rr Inr it by (subst (asm) loop.simps) (auto split: option.splits)
    have st: "st2 = Blocked" and e: "evs = evs0 @ evs1 @ evs2"
      using less.prems(1) rr Inr it x l2 by (subst (asm) loop.simps, simp)+
    have sh: "length rest0 < length pre" using rr Inr read_raw_shorter by blast
    have l2': "loop E False (Suc n) rest0 = (evs2, Blocked)" using l2 st by simp
    have ra: "read_raw show_help (pre @ y) = (evs0, Inr raw0, rest0 @ y)" for y
      using rr Inr read_raw_append by blast
    have l3: "loop E False (Suc n) (rest0 @ [Inr (str ''--help'')]) = (evs2 @ [Prompted True], Blocked)"
      using less.prems(2) ra [of "[Inr (str ''--help'')]"] it x e
      by (subst (asm) loop.simps) (auto split: prod.splits)
    from less.hyps [OF sh l2' l3] obtain k evs' st where
      "loop E False (Suc n) (rest0 @ Inr (str ''--help'') # Inr (str ''--help'') # rest) =
        (evs2 @ [Prompted True,
          LogUtterance (PList [PStr (str ''help'')]), LogContext PNone,
          Invoked (PList [PStr (str ''help'')]) PNone (now_ms E k)] @ evs', st)"
      by blast
    then have "loop E show_help n (pre @ Inr (str ''--help'') # Inr (str ''--help'') # rest) =
        (evs @ [Prompted True,
          LogUtterance (PList [PStr (str ''help'')]), LogContext PNone,
          Invoked (PList [PStr (str ''help'')]) PNone (now_ms E k)] @ evs', st)"
      using ra [of "Inr (str ''--help'') # Inr (str ''--help'') # rest"] it x e
      by (subst loop.simps) simp
    then show ?thesis by blast
  qed
qed

lemma repl_Waiting_iff: "snd (repl E sc) = Waiting \<longleftrightarrow> snd (loop E True 0 sc) = Blocked"
  by (cases "loop E True 0 sc") (auto simp: repl_def split: stop.splits)

lemma repl_Waiting_eq: "repl E sc = (evs, Waiting) \<longleftrightarrow> loop E True 0 sc = (evs, Blocked)"
  by (cases "loop E True 0 sc") (auto simp: repl_def split: stop.splits)

lemma repl_events_prefix: "loop E True 0 sc = (evs @ evs', st) \<Longrightarrow>
  \<exists>evs''. fst (repl E sc) = evs @ evs' @ evs''"
  by (auto simp: repl_def split: stop.splits)

text \<open>
  C9. The sentinel is tested on the first read of a pass only. A second \<open>--help\<close>,
  entered at the prompt that follows the first, is parsed by the chain, which gives
  \<open>(["help"], None)\<close> by the plain-text tier, and is sent to the pipeline. This holds
  in the first pass of a session, in every pass of the loop (any \<open>show_help\<close>, any pass
  number \<open>n\<close>), and after every script \<open>pre\<close> that the session has consumed when the
  first \<open>--help\<close> is the one that brings the help prompt.
\<close>

theorem help_sentinel_once:
  assumes "rejected (json_loads E) (str ''--help'')"
    and "rejected (literal_eval E) (str ''--help'')"
  shows "parse E (str ''--help'') = Inr (PList [PStr (str ''help'')], PNone)
    \<and> take 5 (fst (repl E (Inr (str ''--help'') # Inr (str ''--help'') # rest))) =
        [Prompted True, Prompted True,
         LogUtterance (PList [PStr (str ''help'')]), LogContext PNone,
         Invoked (PList [PStr (str ''help'')]) PNone (now_ms E 0)]
    \<and> take 5 (fst (loop E show_help n (Inr (str ''--help'') # Inr (str ''--help'') # rest))) =
        [Prompted show_help, Prompted True,
         LogUtterance (PList [PStr (str ''help'')]), LogContext PNone,
         Invoked (PList [PStr (str ''help'')]) PNone (now_ms E n)]
    \<and> (snd (repl E pre) = Waiting
        \<and> repl E (pre @ [Inr (str ''--help'')]) = (fst (repl E pre) @ [Prompted True], Waiting)
        \<longrightarrow> (\<exists>k. take 4 (drop (length (fst (repl E pre)))
                    (fst (repl E (pre @ Inr (str ''--help'') # Inr (str ''--help'') # rest)))) =
               [Prompted True,
                LogUtterance (PList [PStr (str ''help'')]), LogContext PNone,
                Invoked (PList [PStr (str ''help'')]) PNone (now_ms E k)]))"
proof -
  note a = parse_help [OF assms]
  from help_any_pass [OF assms, of True 0 rest] obtain evs st where
    "loop E True 0 (Inr (str ''--help'') # Inr (str ''--help'') # rest) =
      ([Prompted True, Prompted True,
        LogUtterance (PList [PStr (str ''help'')]), LogContext PNone,
        Invoked (PList [PStr (str ''help'')]) PNone (now_ms E 0)] @ evs, st)"
    by blast
  then have b: "take 5 (fst (repl E (Inr (str ''--help'') # Inr (str ''--help'') # rest))) =
        [Prompted True, Prompted True,
         LogUtterance (PList [PStr (str ''help'')]), LogContext PNone,
         Invoked (PList [PStr (str ''help'')]) PNone (now_ms E 0)]"
    by (simp add: repl_def split: stop.splits)
  from help_any_pass [OF assms, of show_help n rest]
  have c: "take 5 (fst (loop E show_help n (Inr (str ''--help'') # Inr (str ''--help'') # rest))) =
        [Prompted show_help, Prompted True,
         LogUtterance (PList [PStr (str ''help'')]), LogContext PNone,
         Invoked (PList [PStr (str ''help'')]) PNone (now_ms E n)]"
    by auto
  have d: "\<exists>k. take 4 (drop (length (fst (repl E pre)))
                    (fst (repl E (pre @ Inr (str ''--help'') # Inr (str ''--help'') # rest)))) =
               [Prompted True,
                LogUtterance (PList [PStr (str ''help'')]), LogContext PNone,
                Invoked (PList [PStr (str ''help'')]) PNone (now_ms E k)]"
    if w: "snd (repl E pre) = Waiting"
      and h: "repl E (pre @ [Inr (str ''--help'')]) = (fst (repl E pre) @ [Prompted True], Waiting)"
  proof -
    obtain evs where l: "loop E True 0 pre = (evs, Blocked)"
      using w by (cases "loop E True 0 pre") (auto simp: repl_Waiting_iff)
    then have f: "fst (repl E pre) = evs" by (simp add: repl_def)
    from h f have l': "loop E True 0 (pre @ [Inr (str ''--help'')]) = (evs @ [Prompted True], Blocked)"
      by (simp add: repl_Waiting_eq)
    from help_after_prefix [OF assms l l', of rest] obtain k evs' st where
      "loop E True 0 (pre @ Inr (str ''--help'') # Inr (str ''--help'') # rest) =
        (evs @ [Prompted True,
          LogUtterance (PList [PStr (str ''help'')]), LogContext PNone,
          Invoked (PList [PStr (str ''help'')]) PNone (now_ms E k)] @ evs', st)"
      by blast
    from repl_events_prefix [OF this] f show ?thesis by auto
  qed
  from a b c d show ?thesis by blast
qed

theorem help_sentinel_once_witness:
  "rejected (json_loads sample_env) (str ''--help'')
   \<and> rejected (literal_eval sample_env) (str ''--help'')
   \<and> parse sample_env (str ''--help'') = Inr (PList [PStr (str ''help'')], PNone)
   \<and> take 5 (fst (repl sample_env [Inr (str ''--help''), Inr (str ''--help''), Inl EOFError])) =
        [Prompted True, Prompted True,
         LogUtterance (PList [PStr (str ''help'')]), LogContext PNone,
         Invoked (PList [PStr (str ''help'')]) PNone 0]
   \<and> take 5 (fst (loop sample_env False 1
                    [Inr (str ''--help''), Inr (str ''--help''), Inl EOFError])) =
        [Prompted False, Prompted True,
         LogUtterance (PList [PStr (str ''help'')]), LogContext PNone,
         Invoked (PList [PStr (str ''help'')]) PNone 1000]
   \<and> snd (repl sample_env [Inr (str ''hi'')]) = Waiting
   \<and> repl sample_env ([Inr (str ''hi'')] @ [Inr (str ''--help'')])
        = (fst (repl sample_env [Inr (str ''hi'')]) @ [Prompted True], Waiting)
   \<and> (\<exists>k. take 4 (drop (length (fst (repl sample_env [Inr (str ''hi'')])))
              (fst (repl sample_env ([Inr (str ''hi'')] @
                 Inr (str ''--help'') # Inr (str ''--help'') # [Inl EOFError])))) =
         [Prompted True,
          LogUtterance (PList [PStr (str ''help'')]), LogContext PNone,
          Invoked (PList [PStr (str ''help'')]) PNone (now_ms sample_env k)])
   \<and> repl sample_env [Inr (str ''hi''), Inr (str ''--help''), Inr (str ''--help''), Inl EOFError]
        = ([Prompted True, LogUtterance (PList [PStr (str ''hi'')]), LogContext PNone,
            Invoked (PList [PStr (str ''hi'')]) PNone 0, LogResponse (PList []),
            Prompted False, Prompted True,
            LogUtterance (PList [PStr (str ''help'')]), LogContext PNone,
            Invoked (PList [PStr (str ''help'')]) PNone 1000, LogResponse (PList []),
            Prompted False, LogExiting], Exiting)"
proof -
  have a: "rejected (json_loads sample_env) (str ''--help'')"
    by (simp add: sample_defs rejected_def str_def)
  have b: "rejected (literal_eval sample_env) (str ''--help'')"
    by (simp add: sample_defs rejected_def str_def)
  have c: "now_ms sample_env 0 = 0" "now_ms sample_env 1 = 1000" by (simp_all add: sample_defs)
  have w: "snd (repl sample_env [Inr (str ''hi'')]) = Waiting"
    by (simp add: sample_defs text_defs chain_defs loop_defs)
  have h: "repl sample_env ([Inr (str ''hi'')] @ [Inr (str ''--help'')])
        = (fst (repl sample_env [Inr (str ''hi'')]) @ [Prompted True], Waiting)"
    by (simp add: sample_defs text_defs chain_defs loop_defs)
  have r: "repl sample_env [Inr (str ''hi''), Inr (str ''--help''), Inr (str ''--help''), Inl EOFError]
        = ([Prompted True, LogUtterance (PList [PStr (str ''hi'')]), LogContext PNone,
            Invoked (PList [PStr (str ''hi'')]) PNone 0, LogResponse (PList []),
            Prompted False, Prompted True,
            LogUtterance (PList [PStr (str ''help'')]), LogContext PNone,
            Invoked (PList [PStr (str ''help'')]) PNone 1000, LogResponse (PList []),
            Prompted False, LogExiting], Exiting)"
    by (simp add: sample_defs text_defs chain_defs loop_defs)
  from help_sentinel_once [OF a b, of "[Inl EOFError]" False 1 "[Inr (str ''hi'')]"] a b c w h r
  show ?thesis by simp
qed




text \<open>
  C8, as the code has it. An exception raised by the pipeline ends the loop at that call:
  no later pass runs. \<open>KeyboardInterrupt\<close> and \<open>EOFError\<close> are caught by the handlers
  around the loop and lead to \<open>Exiting\<close>; every other exception leaves \<open>repl\<close>.
\<close>

theorem pipeline_exception_ends_loop:
  assumes "Invoked u c t \<in> set (fst (repl E sc))"
    and "PREDICT_API E u c t = Inl e"
  shows "snd (repl E sc) =
           (if e = KeyboardInterrupt \<or> e = EOFError then Exiting else Propagated e)
     \<and> (\<exists>pre. fst (repl E sc) =
           pre @ Invoked u c t # (if e = KeyboardInterrupt \<or> e = EOFError then [LogExiting] else []))"
  using repl_invoked_raises [OF assms] by auto

theorem pipeline_exception_ends_loop_witness:
  "Invoked (PList [PStr (str ''hi'')]) PNone 0
        \<in> set (fst (repl (raising_env TypeError) [Inr (str ''hi''), Inr (str ''x'')]))
   \<and> PREDICT_API (raising_env TypeError) (PList [PStr (str ''hi'')]) PNone 0 = Inl TypeError
   \<and> snd (repl (raising_env TypeError) [Inr (str ''hi''), Inr (str ''x'')]) = Propagated TypeError
   \<and> (\<exists>pre. fst (repl (raising_env TypeError) [Inr (str ''hi''), Inr (str ''x'')]) =
           pre @ [Invoked (PList [PStr (str ''hi'')]) PNone 0])"
proof -
  have a: "Invoked (PList [PStr (str ''hi'')]) PNone 0
        \<in> set (fst (repl (raising_env TypeError) [Inr (str ''hi''), Inr (str ''x'')]))"
    by (simp add: sample_defs text_defs chain_defs loop_defs)
  have b: "PREDICT_API (raising_env TypeError) (PList [PStr (str ''hi'')]) PNone 0 = Inl TypeError"
    by (simp add: sample_defs)
  from pipeline_exception_ends_loop [OF a b] a b show ?thesis by simp
qed

text \<open>
  C8, as the specification words it (any exception of the pipeline leaves the loop
  uncaught), fails at \<open>EOFError\<close>: the handler of line 157 catches it.
\<close>

theorem pipeline_EOFError_counterexample:
  "PREDICT_API (raising_env EOFError) (PList [PStr (str ''hi'')]) PNone 0
     = Inl EOFError
   \<and> repl (raising_env EOFError) [Inr (str ''hi'')]
     = ([Prompted True, LogUtterance (PList [PStr (str ''hi'')]), LogContext PNone,
         Invoked (PList [PStr (str ''hi'')]) PNone 0, LogExiting], Exiting)
   \<and> snd (repl (raising_env EOFError) [Inr (str ''hi'')]) \<noteq> Propagated EOFError"
  by (simp add: sample_defs text_defs chain_defs loop_defs)

end
